theory Spec2Isabelle
  imports Complex_Main
begin

section \<open>Values of the JavaScript runtime\<close>

text \<open>
  The engine is TypeScript running on a JavaScript runtime. A string is a sequence of
  UTF-16 code units; the moderation texts and the patterns of the source are Cyrillic, so
  a string is a list of code units and every literal of the source is written out as the
  code units it consists of.

  A number is a double: finite values are idealised as rationals, and the three special
  values are kept apart since \<open>parseFloat\<close> and \<open>Number\<close> produce them.
\<close>

type_synonym utf16 = "nat list"

datatype jsnum = Fin rat | NaN | PosInf | NegInf

datatype jv =
    Undefined
  | Null
  | Bool bool
  | Num jsnum
  | Str utf16
  | Arr "jv list"
  | Obj "(utf16 \<times> jv) list"

definition ascii :: "string \<Rightarrow> utf16" where
  "ascii s = map (of_char :: char \<Rightarrow> nat) s"

text \<open>
  The built-ins whose full definition lies outside the repository are parameters of the
  model: \<open>JSON.parse\<close> applied to a fragment that starts with an opening brace (it
  throws, \<open>None\<close>, or returns an object, given by its own properties), and the
  conversion \<open>Number\<close> of a string, array or object. Every theorem below holds for
  all such parameters.
\<close>

record runtime =
  json_parse :: "utf16 \<Rightarrow> (utf16 \<times> jv) list option"
  to_number :: "jv \<Rightarrow> jsnum"

definition truthy :: "jv \<Rightarrow> bool" where
  \<comment> \<open>\<open>Boolean(v)\<close>, and the test of \<open>v || w\<close>\<close>
  "truthy v =
     (case v of
        Undefined \<Rightarrow> False
      | Null \<Rightarrow> False
      | Bool b \<Rightarrow> b
      | Num n \<Rightarrow> n \<noteq> Fin 0 \<and> n \<noteq> NaN
      | Str s \<Rightarrow> s \<noteq> []
      | Arr _ \<Rightarrow> True
      | Obj _ \<Rightarrow> True)"

definition js_Number :: "runtime \<Rightarrow> jv \<Rightarrow> jsnum" where
  "js_Number rt v =
     (case v of
        Undefined \<Rightarrow> NaN
      | Null \<Rightarrow> Fin 0
      | Bool b \<Rightarrow> Fin (if b then 1 else 0)
      | Num n \<Rightarrow> n
      | _ \<Rightarrow> to_number rt v)"

definition field :: "(utf16 \<times> jv) list \<Rightarrow> string \<Rightarrow> jv" where
  \<comment> \<open>property read \<open>obj.name\<close>: \<open>undefined\<close> when the property is missing\<close>
  "field obj name = (case map_of obj (ascii name) of None \<Rightarrow> Undefined | Some v \<Rightarrow> v)"

definition gt1 :: "jsnum \<Rightarrow> bool" where
  \<comment> \<open>\<open>n > 1\<close>; every comparison with NaN is false\<close>
  "gt1 n = (case n of Fin q \<Rightarrow> 1 < q | NaN \<Rightarrow> False | PosInf \<Rightarrow> True | NegInf \<Rightarrow> False)"

definition div100 :: "jsnum \<Rightarrow> jsnum" where
  "div100 n = (case n of Fin q \<Rightarrow> Fin (q / 100) | other \<Rightarrow> other)"

subsection \<open>Strings\<close>

definition in_ranges :: "nat \<Rightarrow> (nat \<times> nat) list \<Rightarrow> bool" where
  "in_ranges c rs = list_ex (\<lambda>(lo, hi). lo \<le> c \<and> c \<le> hi) rs"

definition ws :: "(nat \<times> nat) list" where
  \<comment> \<open>white space and line terminators: the class \<open>\s\<close>, and what \<open>trim\<close> removes\<close>
  "ws = [(9, 13), (32, 32), (160, 160), (5760, 5760), (8192, 8202), (8232, 8233),
         (8239, 8239), (8287, 8287), (12288, 12288), (65279, 65279)]"

definition toUpper :: "nat \<Rightarrow> nat" where
  \<comment> \<open>case mapping of one code unit, for Basic Latin and the Cyrillic block\<close>
  "toUpper c =
     (if (97 \<le> c \<and> c \<le> 122) \<or> (1072 \<le> c \<and> c \<le> 1103) then c - 32
      else if 1104 \<le> c \<and> c \<le> 1119 then c - 80
      else c)"

definition toLower :: "nat \<Rightarrow> nat" where
  "toLower c =
     (if (65 \<le> c \<and> c \<le> 90) \<or> (1040 \<le> c \<and> c \<le> 1071) then c + 32
      else if 1024 \<le> c \<and> c \<le> 1039 then c + 80
      else c)"

definition toLowerCase :: "utf16 \<Rightarrow> utf16" where
  "toLowerCase s = map toLower s"

fun str_includes :: "utf16 \<Rightarrow> utf16 \<Rightarrow> bool" where
  \<comment> \<open>\<open>s.includes(n)\<close>\<close>
  "str_includes [] n = (n = [])"
| "str_includes (x # xs) n = (take (length n) (x # xs) = n \<or> str_includes xs n)"

definition trim :: "utf16 \<Rightarrow> utf16" where
  "trim s = rev (dropWhile (\<lambda>c. in_ranges c ws) (rev (dropWhile (\<lambda>c. in_ranges c ws) s)))"

definition digits_value :: "utf16 \<Rightarrow> nat" where
  "digits_value ds = foldl (\<lambda>acc d. 10 * acc + (d - 48)) 0 ds"

definition parseFloat :: "utf16 \<Rightarrow> jsnum" where
  \<comment> \<open>on the strings of digits and dots that the confidence patterns capture:
      the longest prefix \<open>digits [. digits]\<close>, NaN when it has no digit\<close>
  "parseFloat s =
     (let ip = takeWhile (\<lambda>c. in_ranges c [(48, 57)]) s;
          r = drop (length ip) s;
          fp = (case r of [] \<Rightarrow> [] | c # r' \<Rightarrow>
                  if c = 46 then takeWhile (\<lambda>c. in_ranges c [(48, 57)]) r' else [])
      in if ip = [] \<and> fp = [] then NaN
         else Fin (of_nat (digits_value ip) + of_nat (digits_value fp) / 10 ^ length fp))"

subsection \<open>Regular expressions\<close>

text \<open>
  The fragment of the regular expressions that the source uses: literals, character
  classes, greedy and lazy repetition of a class, an optional item, concatenation,
  alternation and one capture group. Matching is the backtracking search of the
  runtime: alternatives left to right, greedy repetition longest first, lazy repetition
  shortest first, the leftmost start position that succeeds. With the flag \<open>i\<close> two
  code units match when their upper-case mappings agree.
\<close>

datatype cls = Any | OneOf "(nat \<times> nat) list" | NoneOf "(nat \<times> nat) list"

datatype re =
    Lit utf16
  | Cls cls
  | StarG cls
  | PlusG cls
  | StarL cls
  | Maybe re
  | Cat re re
  | Alt re re
  | Grp re

definition unit_eq :: "bool \<Rightarrow> nat \<Rightarrow> nat \<Rightarrow> bool" where
  "unit_eq ci p c = (if ci then toUpper p = toUpper c else p = c)"

definition in_class :: "bool \<Rightarrow> (nat \<times> nat) list \<Rightarrow> nat \<Rightarrow> bool" where
  \<comment> \<open>with \<open>i\<close>: some member of the class has the same upper-case mapping\<close>
  "in_class ci rs c =
     (in_ranges c rs \<or> (ci \<and> (in_ranges (toUpper c) rs \<or> in_ranges (toLower c) rs)))"

definition cls_match :: "bool \<Rightarrow> cls \<Rightarrow> nat \<Rightarrow> bool" where
  "cls_match ci cl c =
     (case cl of Any \<Rightarrow> True | OneOf rs \<Rightarrow> in_class ci rs c | NoneOf rs \<Rightarrow> \<not> in_class ci rs c)"

fun first_some :: "('b \<Rightarrow> 'a option) \<Rightarrow> 'b list \<Rightarrow> 'a option" where
  "first_some f [] = None"
| "first_some f (x # xs) = (case f x of Some v \<Rightarrow> Some v | None \<Rightarrow> first_some f xs)"

definition run_length :: "bool \<Rightarrow> cls \<Rightarrow> utf16 \<Rightarrow> nat" where
  "run_length ci cl s = length (takeWhile (cls_match ci cl) s)"

fun rmatch :: "bool \<Rightarrow> re \<Rightarrow> utf16 \<Rightarrow> utf16 option \<Rightarrow>
    (utf16 \<Rightarrow> utf16 option \<Rightarrow> 'a option) \<Rightarrow> 'a option" where
  "rmatch ci (Lit p) s c k =
     (if length p \<le> length s \<and> list_all2 (unit_eq ci) p (take (length p) s)
      then k (drop (length p) s) c else None)"
| "rmatch ci (Cls cl) s c k =
     (case s of [] \<Rightarrow> None | x # xs \<Rightarrow> if cls_match ci cl x then k xs c else None)"
| "rmatch ci (StarG cl) s c k =
     first_some (\<lambda>n. k (drop n s) c) (rev [0 ..< Suc (run_length ci cl s)])"
| "rmatch ci (PlusG cl) s c k =
     first_some (\<lambda>n. k (drop n s) c) (rev [1 ..< Suc (run_length ci cl s)])"
| "rmatch ci (StarL cl) s c k =
     first_some (\<lambda>n. k (drop n s) c) [0 ..< Suc (run_length ci cl s)]"
| "rmatch ci (Maybe r) s c k =
     (case rmatch ci r s c k of Some v \<Rightarrow> Some v | None \<Rightarrow> k s c)"
| "rmatch ci (Cat r1 r2) s c k = rmatch ci r1 s c (\<lambda>s' c'. rmatch ci r2 s' c' k)"
| "rmatch ci (Alt r1 r2) s c k =
     (case rmatch ci r1 s c k of Some v \<Rightarrow> Some v | None \<Rightarrow> rmatch ci r2 s c k)"
| "rmatch ci (Grp r) s c k =
     rmatch ci r s c (\<lambda>s' c'. k s' (Some (take (length s - length s') s)))"

definition re_exec :: "bool \<Rightarrow> re \<Rightarrow> utf16 \<Rightarrow> (nat \<times> nat \<times> utf16 option) option" where
  \<comment> \<open>\<open>s.match(r)\<close>: start, length and first capture of the leftmost match\<close>
  "re_exec ci r s =
     first_some
       (\<lambda>i. rmatch ci r (drop i s) None
               (\<lambda>s' c. Some (i, length s - i - length s', c)))
       [0 ..< Suc (length s)]"

definition re_test :: "bool \<Rightarrow> re \<Rightarrow> utf16 \<Rightarrow> bool" where
  "re_test ci r s = (re_exec ci r s \<noteq> None)"

function split_re :: "re \<Rightarrow> utf16 \<Rightarrow> utf16 list" where
  \<comment> \<open>\<open>s.split(r)\<close> for a pattern without capture groups that matches no empty string\<close>
  "split_re r s =
     (case re_exec False r s of
        None \<Rightarrow> [s]
      | Some (i, l, c) \<Rightarrow>
          if l = 0 \<or> length s < i + l then [s]
          else take i s # split_re r (drop (i + l) s))"
  by pat_completeness auto
termination
  by (relation "measure (\<lambda>(r, s). length s)") auto

section \<open>Data model\<close>

text \<open>
  \<open>ModerateMessageRequest\<close> and \<open>ModerateMessageResponse\<close> of the source. An absent
  optional field is \<open>None\<close>. The five decision fields of a response are JavaScript
  values: on the structured path the gateway copies them from the classifier's reply
  without checking their types. The same five fields are the arguments of the
  \<open>moderate_message\<close> function call and, together with \<open>messageIndex\<close>, one entry of
  the \<open>results\<close> array of \<open>moderate_messages_batch\<close>. An entry is an object whose
  \<open>messageIndex\<close> is a finite number, as the comparison function of the sort needs;
  properties of a reply beyond these are carried along by the source and read nowhere.
  The field \<open>messageId\<close> of a response is \<open>responseMessageId\<close> here.
\<close>

record request =
  messageText :: utf16
  userName :: "utf16 option"
  userBio :: "utf16 option"
  hasAvatar :: "bool option"
  suspiciousProfile :: "bool option"
  suspicionReason :: "utf16 option"
  messageId :: "int option"
  chatId :: "int option"

record verdict =
  isSpam :: jv
  confidence :: jv
  reason :: jv
  matchesKnownPattern :: jv
  shouldBan :: jv

record outcome = verdict +
  responseMessageId :: "int option"

record entry = verdict +
  messageIndex :: rat

definition with_id :: "'a verdict_scheme \<Rightarrow> int option \<Rightarrow> outcome" where
  \<comment> \<open>\<open>{...v, messageId: i}\<close>\<close>
  "with_id v i =
     \<lparr>isSpam = isSpam v, confidence = confidence v, reason = reason v,
      matchesKnownPattern = matchesKnownPattern v, shouldBan = shouldBan v,
      responseMessageId = i\<rparr>"

definition or_index :: "int option \<Rightarrow> nat \<Rightarrow> int" where
  \<comment> \<open>\<open>id || index\<close>: an absent id and the id 0 are falsy\<close>
  "or_index i index = (case i of None \<Rightarrow> int index | Some n \<Rightarrow> if n = 0 then int index else n)"

section \<open>Text-heuristic extractor\<close>

text \<open>The patterns and string literals of \<open>extractModerationFromText\<close> and
  \<open>extractBatchResultsFromText\<close>, as code units.\<close>

definition jsonMatch_re :: re where
  \<comment> \<open>source line 311\<close>
  "jsonMatch_re = Cat (Lit [123]) (Cat (StarL Any) (Lit [125]))"

definition notSpam_re :: re where
  \<comment> \<open>source line 336, flag i\<close>
  "notSpam_re = Alt (Lit [1085, 1077, 32, 1103, 1074, 1083, 1103, 1077, 1090, 1089, 1103, 32, 1089, 1087, 1072, 1084, 1086, 1084]) (Alt (Lit [1085, 1077, 32, 1089, 1087, 1072, 1084]) (Lit [1085, 1077, 32, 1088, 1077, 1082, 1083, 1072, 1084, 97]))"

definition isSpam_re :: re where
  \<comment> \<open>source line 338, flag i\<close>
  "isSpam_re = Alt (Lit [1103, 1074, 1083, 1103, 1077, 1090, 1089, 1103, 32, 1089, 1087, 1072, 1084, 1086, 1084]) (Alt (Lit [1101, 1090, 1086, 32, 1089, 1087, 1072, 1084]) (Lit [1101, 1090, 1086, 32, 1088, 1077, 1082, 1083, 1072, 1084, 1072]))"

definition spamKeyword_re :: re where
  \<comment> \<open>source line 342, flag i\<close>
  "spamKeyword_re = Alt (Lit [1089, 1087, 1072, 1084]) (Alt (Lit [1088, 1077, 1082, 1083, 1072, 1084]) (Alt (Lit [1087, 1086, 1076, 1086, 1079, 1088, 1080, 1090, 1077, 1083, 1100, 1085]) (Lit [1074, 1088, 1077, 1076, 1086, 1085, 1086, 1089, 1085])))"

definition confidence_re1 :: re where
  \<comment> \<open>source line 347, flag i\<close>
  "confidence_re1 = Cat (Lit [1091, 1074, 1077, 1088, 1077, 1085, 1085, 1086, 1089, 1090, 1100]) (Cat (Maybe (Lit [58])) (Cat (StarG (OneOf ws)) (Cat (Grp (PlusG (OneOf [(48, 57), (46, 46)]))) (Maybe (Lit [37])))))"

definition confidence_re2 :: re where
  \<comment> \<open>source line 348, flag i\<close>
  "confidence_re2 = Cat (Lit [99, 111, 110, 102, 105, 100, 101, 110, 99, 101]) (Cat (Maybe (Lit [58])) (Cat (StarG (OneOf ws)) (Cat (Grp (PlusG (OneOf [(48, 57), (46, 46)]))) (Maybe (Lit [37])))))"

definition confidence_re3 :: re where
  \<comment> \<open>source line 349, flag i\<close>
  "confidence_re3 = Cat (Lit [1089, 32, 1091, 1074, 1077, 1088, 1077, 1085, 1085, 1086, 1089, 1090, 1100, 1102]) (Cat (StarG (OneOf ws)) (Cat (Grp (PlusG (OneOf [(48, 57), (46, 46)]))) (Maybe (Lit [37]))))"

definition highConfidence_re :: re where
  \<comment> \<open>source line 356, flag i\<close>
  "highConfidence_re = Alt (Cat (Lit [1074, 1099, 1089, 1086, 1082]) (Cat (PlusG (OneOf [(1072, 1103)])) (Lit [32, 1091, 1074, 1077, 1088, 1077, 1085, 1085, 1086, 1089, 1090]))) (Lit [1089, 32, 1074, 1099, 1089, 1086, 1082, 1086, 1081, 32, 1091, 1074, 1077, 1088, 1077, 1085, 1085, 1086, 1089, 1090, 1100, 1102])"

definition mediumConfidence_re :: re where
  \<comment> \<open>source line 358, flag i\<close>
  "mediumConfidence_re = Cat (Lit [1089, 1088, 1077, 1076, 1085]) (Cat (PlusG (OneOf [(1072, 1103)])) (Lit [32, 1091, 1074, 1077, 1088, 1077, 1085, 1085, 1086, 1089, 1090]))"

definition lowConfidence_re :: re where
  \<comment> \<open>source line 360, flag i\<close>
  "lowConfidence_re = Cat (Lit [1085, 1080, 1079, 1082]) (Cat (PlusG (OneOf [(1072, 1103)])) (Lit [32, 1091, 1074, 1077, 1088, 1077, 1085, 1085, 1086, 1089, 1090]))"

definition reason_re1 :: re where
  \<comment> \<open>source line 371, flag i\<close>
  "reason_re1 = Cat (Lit [1087, 1088, 1080, 1095, 1080, 1085, 1072]) (Cat (Maybe (Lit [58])) (Cat (StarG (OneOf ws)) (Cat (Grp (PlusG (NoneOf [(10, 10), (46, 46)]))) (Cls (OneOf [(46, 46), (10, 10)])))))"

definition reason_re2 :: re where
  \<comment> \<open>source line 372, flag i\<close>
  "reason_re2 = Cat (Lit [114, 101, 97, 115, 111, 110]) (Cat (Maybe (Lit [58])) (Cat (StarG (OneOf ws)) (Cat (Grp (PlusG (NoneOf [(10, 10), (46, 46)]))) (Cls (OneOf [(46, 46), (10, 10)])))))"

definition reason_re3 :: re where
  \<comment> \<open>source line 373, flag i\<close>
  "reason_re3 = Cat (Lit [1087, 1086, 1090, 1086, 1084, 1091, 32, 1095, 1090, 1086]) (Cat (StarG (OneOf ws)) (Cat (Grp (PlusG (NoneOf [(10, 10), (46, 46)]))) (Cls (OneOf [(46, 46), (10, 10)]))))"

definition reason_re4 :: re where
  \<comment> \<open>source line 374, flag i\<close>
  "reason_re4 = Cat (Lit [1087, 1086, 1089, 1082, 1086, 1083, 1100, 1082, 1091]) (Cat (StarG (OneOf ws)) (Cat (Grp (PlusG (NoneOf [(10, 10), (46, 46)]))) (Cls (OneOf [(46, 46), (10, 10)]))))"

definition reason_re5 :: re where
  \<comment> \<open>source line 375, flag i\<close>
  "reason_re5 = Cat (Lit [1090, 1072, 1082, 32, 1082, 1072, 1082]) (Cat (StarG (OneOf ws)) (Cat (Grp (PlusG (NoneOf [(10, 10), (46, 46)]))) (Cls (OneOf [(46, 46), (10, 10)]))))"

definition sentence_re :: re where
  \<comment> \<open>source line 388\<close>
  "sentence_re = PlusG (OneOf [(46, 46), (33, 33), (63, 63)])"

definition shouldBan_re1 :: re where
  \<comment> \<open>source line 400, flag i\<close>
  "shouldBan_re1 = Alt (Lit [1089, 1083, 1077, 1076, 1091, 1077, 1090, 32, 1079, 1072, 1073, 1072, 1085, 1080, 1090, 1100]) (Alt (Lit [1085, 1091, 1078, 1085, 1086, 32, 1079, 1072, 1073, 1072, 1085, 1080, 1090, 1100]) (Alt (Cat (Lit [1088, 1077, 1082, 1086, 1084, 1077, 1085, 1076]) (Cat (PlusG (OneOf [(1072, 1103)])) (Lit [32, 1073, 1072, 1085]))) (Lit [1079, 1072, 1073, 1083, 1086, 1082, 1080, 1088, 1086, 1074, 1072, 1090, 1100, 32, 1087, 1086, 1083, 1100, 1079, 1086, 1074, 1072, 1090, 1077, 1083, 1103])))"

definition shouldBan_re2 :: re where
  \<comment> \<open>source line 401, flag i\<close>
  "shouldBan_re2 = Alt (Lit [1073, 1072, 1085]) (Alt (Lit [98, 97, 110]) (Alt (Lit [1073, 1083, 1086, 1082, 1080, 1088]) (Lit [1079, 1072, 1073, 1083, 1086, 1082, 1080, 1088])))"

definition knownPattern_re1 :: re where
  \<comment> \<open>source line 404, flag i\<close>
  "knownPattern_re1 = Alt (Cat (Lit [1089, 1086, 1086, 1090, 1074, 1077, 1090, 1089, 1090, 1074]) (Cat (PlusG (OneOf [(1072, 1103)])) (Lit [32, 1080, 1079, 1074, 1077, 1089, 1090, 1085]))) (Alt (Cat (Lit [1080, 1079, 1074, 1077, 1089, 1090, 1085]) (Cat (PlusG (OneOf [(1072, 1103)])) (Lit [32, 1096, 1072, 1073, 1083, 1086, 1085]))) (Alt (Lit [1087, 1072, 1090, 1090, 1077, 1088, 1085]) (Lit [112, 97, 116, 116, 101, 114, 110])))"

definition knownPattern_re2 :: re where
  \<comment> \<open>source line 405, flag i\<close>
  "knownPattern_re2 = Alt (Cat (Lit [1087, 1086, 1093, 1086, 1078]) (Cat (PlusG (OneOf [(1072, 1103)])) (Lit [32, 1085, 1072, 32, 1096, 1072, 1073, 1083, 1086, 1085]))) (Alt (Cat (Lit [1090, 1080, 1087, 1080, 1095, 1085]) (Cat (PlusG (OneOf [(1072, 1103)])) (Lit [32, 1096, 1083, 1102, 1093, 1086, 1073, 1086, 1090]))) (Cat (Lit [1090, 1080, 1087, 1080, 1095, 1085]) (Cat (PlusG (OneOf [(1072, 1103)])) (Lit [32, 1089, 1087, 1072, 1084]))))"

definition batchSplit_re :: re where
  \<comment> \<open>source line 848\<close>
  "batchSplit_re = Alt (Lit [45, 45, 45]) (Alt (Cat (Lit [10, 10, 1057, 1086, 1086, 1073, 1097, 1077, 1085, 1080, 1077, 32]) (Cat (PlusG (OneOf [(48, 57)])) (Lit [58]))) (Cat (Lit [1057, 1086, 1086, 1073, 1097, 1077, 1085, 1080, 1077, 32]) (Cat (PlusG (OneOf [(48, 57)])) (Lit [58]))))"

definition reason_from_json :: utf16 where
  \<comment> \<open>string literal of source line 321\<close>
  "reason_from_json = [1048, 1079, 1074, 1083, 1077, 1095, 1077, 1085, 1086, 32, 1080, 1079, 32, 74, 83, 79, 78, 32, 1074, 32, 1090, 1077, 1082, 1089, 1090, 1077]"

definition reason_not_found :: utf16 where
  \<comment> \<open>string literal of source line 369\<close>
  "reason_not_found = [1053, 1077, 32, 1091, 1076, 1072, 1083, 1086, 1089, 1100, 32, 1080, 1079, 1074, 1083, 1077, 1095, 1100, 32, 1087, 1088, 1080, 1095, 1080, 1085, 1091, 32, 1080, 1079, 32, 1086, 1090, 1074, 1077, 1090, 1072]"

definition kw_spam :: utf16 where
  \<comment> \<open>string literal of source line 390\<close>
  "kw_spam = [1089, 1087, 1072, 1084]"

definition kw_reklam :: utf16 where
  \<comment> \<open>string literal of source line 391\<close>
  "kw_reklam = [1088, 1077, 1082, 1083, 1072, 1084]"

definition kw_podozrit :: utf16 where
  \<comment> \<open>string literal of source line 392\<close>
  "kw_podozrit = [1087, 1086, 1076, 1086, 1079, 1088, 1080, 1090]"

definition reason_batch_error :: utf16 where
  \<comment> \<open>string literal of source line 816\<close>
  "reason_batch_error = [1055, 1088, 1086, 1080, 1079, 1086, 1096, 1083, 1072, 32, 1086, 1096, 1080, 1073, 1082, 1072, 32, 1087, 1088, 1080, 32, 1086, 1073, 1088, 1072, 1073, 1086, 1090, 1082, 1077, 32, 1073, 1072, 1090, 1095, 1072]"

definition reason_single_error :: utf16 where
  \<comment> \<open>string literal of source line 1159\<close>
  "reason_single_error = [1055, 1088, 1086, 1080, 1079, 1086, 1096, 1083, 1072, 32, 1086, 1096, 1080, 1073, 1082, 1072, 32, 1087, 1088, 1080, 32, 1086, 1073, 1088, 1072, 1073, 1086, 1090, 1082, 1077]"

definition marker_message1 :: utf16 where
  \<comment> \<open>string literal of source line 846\<close>
  "marker_message1 = [1057, 1086, 1086, 1073, 1097, 1077, 1085, 1080, 1077, 32, 49, 58]"

definition marker_dashes :: utf16 where
  \<comment> \<open>string literal of source line 846\<close>
  "marker_dashes = [45, 45, 45]"

definition name_moderate_message :: utf16 where
  \<comment> \<open>string literal of source line 1112\<close>
  "name_moderate_message = [109, 111, 100, 101, 114, 97, 116, 101, 95, 109, 101, 115, 115, 97, 103, 101]"

definition name_moderate_messages_batch :: utf16 where
  \<comment> \<open>string literal of source line 767\<close>
  "name_moderate_messages_batch = [109, 111, 100, 101, 114, 97, 116, 101, 95, 109, 101, 115, 115, 97, 103, 101, 115, 95, 98, 97, 116, 99, 104]"


text \<open>
  \<open>extractModerationFromText\<close>, in the order of the source: an embedded JSON object
  with the fields \<open>isSpam\<close> and \<open>confidence\<close> is trusted as it is; otherwise the
  keyword rules decide. None of the string operations throws on a string, so the outer
  handler of the source (which returns a fixed response) is never entered.
\<close>

definition jsonPath :: "runtime \<Rightarrow> utf16 \<Rightarrow> outcome option" where
  "jsonPath rt txt =
     (case re_exec False jsonMatch_re txt of
        None \<Rightarrow> None
      | Some (i, l, c) \<Rightarrow>
          (case json_parse rt (take l (drop i txt)) of
             None \<Rightarrow> None
           | Some jsonData \<Rightarrow>
               if field jsonData ''isSpam'' \<noteq> Undefined \<and> field jsonData ''confidence'' \<noteq> Undefined
               then Some
                 \<lparr>isSpam = Bool (truthy (field jsonData ''isSpam'')),
                  confidence = Num (js_Number rt (field jsonData ''confidence'')),
                  reason = (if truthy (field jsonData ''reason'') then field jsonData ''reason''
                            else Str reason_from_json),
                  matchesKnownPattern = Bool (truthy (field jsonData ''matchesKnownPattern'')),
                  shouldBan = Bool (truthy (field jsonData ''shouldBan'')),
                  responseMessageId = None\<rparr>
               else None))"

definition spamFlag :: "utf16 \<Rightarrow> bool" where
  "spamFlag txt =
     (if re_test True notSpam_re txt then False
      else if re_test True isSpam_re txt then True
      else re_test True spamKeyword_re txt)"

definition confidenceMatch :: "utf16 \<Rightarrow> (nat \<times> nat \<times> utf16 option) option" where
  "confidenceMatch txt =
     (case re_exec True confidence_re1 txt of
        Some m \<Rightarrow> Some m
      | None \<Rightarrow>
          (case re_exec True confidence_re2 txt of
             Some m \<Rightarrow> Some m
           | None \<Rightarrow> re_exec True confidence_re3 txt))"

definition confidenceOf :: "utf16 \<Rightarrow> bool \<Rightarrow> jsnum" where
  "confidenceOf txt spam =
     (case confidenceMatch txt of
        Some (i, l, c) \<Rightarrow>
          (let n = (case c of None \<Rightarrow> NaN | Some t \<Rightarrow> parseFloat t)
           in if gt1 n then div100 n else n)
      | None \<Rightarrow>
          if re_test True highConfidence_re txt then Fin (9 / 10)
          else if re_test True mediumConfidence_re txt then Fin (7 / 10)
          else if re_test True lowConfidence_re txt then Fin (3 / 10)
          else if spam then Fin (3 / 4) else Fin (1 / 4))"

definition reasonPatterns :: "re list" where
  "reasonPatterns = [reason_re1, reason_re2, reason_re3, reason_re4, reason_re5]"

fun reasonLoop :: "re list \<Rightarrow> utf16 \<Rightarrow> utf16 \<Rightarrow> utf16" where
  \<comment> \<open>the loop over \<open>reasonPatterns\<close>: the first pattern that matches sets the reason\<close>
  "reasonLoop [] txt r = r"
| "reasonLoop (p # ps) txt r =
     (case re_exec True p txt of
        Some (i, l, c) \<Rightarrow> trim (case c of None \<Rightarrow> [] | Some t \<Rightarrow> t)
      | None \<Rightarrow> reasonLoop ps txt r)"

fun sentenceLoop :: "utf16 list \<Rightarrow> utf16 \<Rightarrow> utf16" where
  "sentenceLoop [] r = r"
| "sentenceLoop (sentence # rest) r =
     (if str_includes (toLowerCase sentence) kw_spam \<or>
         str_includes (toLowerCase sentence) kw_reklam \<or>
         str_includes (toLowerCase sentence) kw_podozrit
      then trim sentence
      else sentenceLoop rest r)"

definition reasonOf :: "utf16 \<Rightarrow> bool \<Rightarrow> utf16" where
  "reasonOf txt spam =
     (let r = reasonLoop reasonPatterns txt reason_not_found
      in if r = reason_not_found \<and> spam
         then sentenceLoop (split_re sentence_re txt) r
         else r)"

definition banFlag :: "utf16 \<Rightarrow> bool" where
  "banFlag txt = (re_test True shouldBan_re1 txt \<or> re_test True shouldBan_re2 txt)"

definition knownPatternFlag :: "utf16 \<Rightarrow> bool" where
  "knownPatternFlag txt =
     (re_test True knownPattern_re1 txt \<or> re_test True knownPattern_re2 txt)"

definition keywordPath :: "utf16 \<Rightarrow> outcome" where
  "keywordPath txt =
     (let spam = spamFlag txt
      in \<lparr>isSpam = Bool spam,
          confidence = Num (confidenceOf txt spam),
          reason = Str (reasonOf txt spam),
          matchesKnownPattern = Bool (knownPatternFlag txt \<or> spam),
          shouldBan = Bool (banFlag txt),
          responseMessageId = None\<rparr>)"

definition extractModerationFromText :: "runtime \<Rightarrow> utf16 \<Rightarrow> outcome" where
  "extractModerationFromText rt txt =
     (case jsonPath rt txt of Some r \<Rightarrow> r | None \<Rightarrow> keywordPath txt)"

definition extractBatchResultsFromText :: "runtime \<Rightarrow> utf16 \<Rightarrow> request list \<Rightarrow> outcome list" where
  "extractBatchResultsFromText rt txt messages =
     (if str_includes txt marker_message1 \<or> str_includes txt marker_dashes
      then
        (let messageResponses = split_re batchSplit_re txt
         in map (\<lambda>(index, msg).
                   with_id
                     (extractModerationFromText rt
                        (if index < length messageResponses then messageResponses ! index else txt))
                     (Some (or_index (messageId msg) index)))
              (enumerate 0 messages))
      else
        map (\<lambda>(index, msg).
               with_id (extractModerationFromText rt txt) (Some (or_index (messageId msg) index)))
          (enumerate 0 messages))"

section \<open>Classifier gateway\<close>

text \<open>
  The remote classifier is a function from the request sent to the reply received.
  \<open>SingleCall r\<close> is the POST of \<open>moderateMessage\<close> (the single-message prompt built
  from \<open>r\<close>, the tool \<open>moderate_message\<close>); \<open>BatchCall rs\<close> is the POST of
  \<open>moderateMessageBatch\<close> (the prompt listing every message of \<open>rs\<close>, the tool
  \<open>moderate_messages_batch\<close>).

  A reply is a transport error (the POST throws), a body whose first candidate cannot be
  read (the property access throws, in the inner block and again in its handler), or a
  body whose first part carries a function call, a text, both or neither. The arguments
  of a function call are the five decision fields and \<open>results\<close>, which is missing,
  a value that is not an array, or an array of entries.
\<close>

datatype api_call = SingleCall request | BatchCall "request list"

datatype results_val = NoResults | NotArray | "Entries" "entry list"

record call_args = verdict +
  results :: results_val

record function_call =
  fc_name :: utf16
  fc_args :: "call_args option"

datatype api_reply =
    TransportError
  | Garbled
  | Response "function_call option" "utf16 option"

type_synonym classifier = "api_call \<Rightarrow> api_reply"

definition reply_text :: "utf16 option \<Rightarrow> utf16 option" where
  \<comment> \<open>the test \<open>parts[0].text\<close>: an empty string is falsy\<close>
  "reply_text t = (case t of None \<Rightarrow> None | Some s \<Rightarrow> if s = [] then None else Some s)"

definition errorResponse :: "utf16 \<Rightarrow> int option \<Rightarrow> outcome" where
  "errorResponse why i =
     \<lparr>isSpam = Bool False, confidence = Num (Fin 0), reason = Str why,
      matchesKnownPattern = Bool False, shouldBan = Bool False, responseMessageId = i\<rparr>"

definition singleStructured :: "function_call option \<Rightarrow> call_args option" where
  \<comment> \<open>\<open>functionCall.name === "moderate_message" && functionCall.args\<close>\<close>
  "singleStructured fc =
     (case fc of
        None \<Rightarrow> None
      | Some f \<Rightarrow> if fc_name f = name_moderate_message then fc_args f else None)"

definition singleAttempt :: "runtime \<Rightarrow> request \<Rightarrow> function_call option \<Rightarrow> utf16 option \<Rightarrow>
    unit + outcome" where
  \<comment> \<open>the inner \<open>try\<close> block of \<open>moderateMessage\<close>; \<open>Inl\<close> is its \<open>throw\<close>\<close>
  "singleAttempt rt request fc txt =
     (case singleStructured fc of
        Some a \<Rightarrow> Inr (with_id a (messageId request))
      | None \<Rightarrow>
          (case reply_text txt of
             Some textResponse \<Rightarrow>
               Inr (with_id (extractModerationFromText rt textResponse) (messageId request))
           | None \<Rightarrow> Inl ()))"

definition moderateMessage :: "runtime \<Rightarrow> classifier \<Rightarrow> request \<Rightarrow> outcome" where
  "moderateMessage rt cl request =
     (case cl (SingleCall request) of
        TransportError \<Rightarrow> errorResponse reason_single_error (messageId request)
      | Garbled \<Rightarrow> errorResponse reason_single_error (messageId request)
      | Response fc txt \<Rightarrow>
          (case singleAttempt rt request fc txt of
             Inr r \<Rightarrow> r
           | Inl e \<Rightarrow>
               (case reply_text txt of
                  Some textResponse \<Rightarrow>
                    with_id (extractModerationFromText rt textResponse) (messageId request)
                | None \<Rightarrow> errorResponse reason_single_error (messageId request))))"

definition batchStructured :: "function_call option \<Rightarrow> results_val" where
  \<comment> \<open>\<open>functionCall.name === "moderate_messages_batch" && functionCall.args?.results\<close>\<close>
  "batchStructured fc =
     (case fc of
        None \<Rightarrow> NoResults
      | Some f \<Rightarrow>
          if fc_name f = name_moderate_messages_batch
          then (case fc_args f of None \<Rightarrow> NoResults | Some a \<Rightarrow> results a)
          else NoResults)"

definition at_index :: "request list \<Rightarrow> rat \<Rightarrow> request option" where
  \<comment> \<open>\<open>messages[result.messageIndex]\<close>: \<open>undefined\<close> unless the index is one of the list\<close>
  "at_index messages q =
     (if q = of_int \<lfloor>q\<rfloor> \<and> 0 \<le> q \<and> nat \<lfloor>q\<rfloor> < length messages
      then Some (messages ! nat \<lfloor>q\<rfloor>) else None)"

definition mapEntries :: "request list \<Rightarrow> entry list \<Rightarrow> outcome list" where
  \<comment> \<open>\<open>batchResults.sort(...).map(...)\<close>; the sort of the runtime is stable\<close>
  "mapEntries messages batchResults =
     map (\<lambda>(index, result).
            with_id result
              (Some (or_index
                 (case at_index messages (messageIndex result) of
                    None \<Rightarrow> None
                  | Some m \<Rightarrow> messageId m)
                 index)))
       (enumerate 0 (sort_key messageIndex batchResults))"

definition defaultBatch :: "request list \<Rightarrow> outcome list" where
  "defaultBatch messages =
     map (\<lambda>(index, msg). errorResponse reason_batch_error (Some (or_index (messageId msg) index)))
       (enumerate 0 messages)"

definition batchAttempt :: "runtime \<Rightarrow> request list \<Rightarrow> function_call option \<Rightarrow> utf16 option \<Rightarrow>
    unit + outcome list" where
  \<comment> \<open>the inner \<open>try\<close> block of \<open>moderateMessageBatch\<close>; \<open>Inl\<close> is a throw: of
      \<open>sort\<close> on a value that is no array, or the explicit one at the end\<close>
  "batchAttempt rt messages fc txt =
     (case batchStructured fc of
        Entries batchResults \<Rightarrow> Inr (mapEntries messages batchResults)
      | NotArray \<Rightarrow> Inl ()
      | NoResults \<Rightarrow>
          (case reply_text txt of
             Some textResponse \<Rightarrow> Inr (extractBatchResultsFromText rt textResponse messages)
           | None \<Rightarrow> Inl ()))"

definition moderateMessageBatch :: "runtime \<Rightarrow> classifier \<Rightarrow> request list \<Rightarrow> outcome list" where
  "moderateMessageBatch rt cl messages =
     (if length messages = 0 then []
      else if length messages = 1 then [moderateMessage rt cl (hd messages)]
      else
        (case cl (BatchCall messages) of
           TransportError \<Rightarrow> defaultBatch messages
         | Garbled \<Rightarrow> defaultBatch messages
         | Response fc txt \<Rightarrow>
             (case batchAttempt rt messages fc txt of
                Inr rs \<Rightarrow> rs
              | Inl e \<Rightarrow>
                  (case reply_text txt of
                     Some textResponse \<Rightarrow> extractBatchResultsFromText rt textResponse messages
                   | None \<Rightarrow> defaultBatch messages))))"

section \<open>Batching coordinator\<close>

text \<open>
  The state of one \<open>GeminiService\<close> and of the runtime around it. A batch is an object:
  the map of open batches, the timer callbacks and the submissions refer to it by its
  identity, the position in the store of batch objects. The runtime keeps the pending
  timers; the handle returned by \<open>setTimeout\<close> is the position of the timer, and a
  timer that was cleared or has fired is \<open>None\<close>. The handle is an object of the
  runtime, so \<open>batch.timer\<close> is falsy only when it is \<open>null\<close>; the callback of a
  timer leaves the handle in its batch. A pending timer holds what its
  callback closes over: the conversation, the batch object, and the caller whose
  \<open>handleResult\<close> it calls. The promises handed out by \<open>queueMessageForModeration\<close> are
  numbered in the order of the calls, and a caller is the number of its promise. The
  classifier calls that have been issued and not yet answered are in flight.

  The runtime is single-threaded: a submission, a timer callback up to its \<open>await\<close>,
  and the continuation after a reply each run to completion, so each is one step.

  \<open>moderateMessageBatch\<close> handles every error itself, so the \<open>catch\<close> of the timer
  callback and of the size branch, which would reject the promise, is never entered; a
  promise is rejected only by \<open>handleResult\<close>, when the result list is too short.
\<close>

record config =
  batchTimeout :: nat
  maxBatchSize :: int

datatype settlement = Pending | Resolved outcome | Rejected

record batch =
  messages :: "request list"
  timer :: "nat option"
  lastMessageTime :: nat

record pending_timer =
  deadline :: nat
  timerChat :: int
  timerBatch :: nat
  owner :: nat

record flight =
  chat :: int
  messagesToProcess :: "request list"
  caller :: nat
  callerIndex :: nat
  byTimer :: bool

record engine =
  store :: "batch list"
  batchMap :: "int \<Rightarrow> nat option"
  timers :: "pending_timer option list"
  promises :: "settlement list"
  inflight :: "flight list"

definition init :: engine where
  "init = \<lparr>store = [], batchMap = (\<lambda>c. None), timers = [], promises = [], inflight = []\<rparr>"

definition settle :: "nat \<Rightarrow> settlement \<Rightarrow> engine \<Rightarrow> engine" where
  \<comment> \<open>\<open>resolve\<close> and \<open>reject\<close> of a promise: only the first call has an effect\<close>
  "settle p v s =
     (if p < length (promises s) \<and> promises s ! p = Pending
      then s\<lparr>promises := (promises s)[p := v]\<rparr> else s)"

definition handleResult :: "nat \<Rightarrow> nat \<Rightarrow> outcome list \<Rightarrow> engine \<Rightarrow> engine" where
  \<comment> \<open>the closure \<open>handleResult\<close> of caller \<open>p\<close>, whose \<open>messageIndex\<close> is \<open>idx\<close>\<close>
  "handleResult p idx rs s =
     (if idx < length rs then settle p (Resolved (rs ! idx)) s else settle p Rejected s)"

definition chatOf :: "request \<Rightarrow> int" where
  \<comment> \<open>\<open>request.chatId || 0\<close>\<close>
  "chatOf request = (case chatId request of None \<Rightarrow> 0 | Some c \<Rightarrow> c)"

definition queuedItem :: "request \<Rightarrow> nat \<Rightarrow> request" where
  \<comment> \<open>\<open>{...request, messageId: request.messageId || batch.messages.length}\<close>\<close>
  "queuedItem request n = request\<lparr>messageId := Some (or_index (messageId request) n)\<rparr>"

definition clearTimeout :: "nat option \<Rightarrow> engine \<Rightarrow> engine" where
  \<comment> \<open>\<open>if (batch.timer) clearTimeout(batch.timer)\<close>\<close>
  "clearTimeout h s = (case h of None \<Rightarrow> s | Some i \<Rightarrow> s\<lparr>timers := (timers s)[i := None]\<rparr>)"

definition getBatch :: "int \<Rightarrow> nat \<Rightarrow> engine \<Rightarrow> nat \<times> engine" where
  \<comment> \<open>\<open>this.batchMap.get(chatId)\<close>, and the new batch when there is none\<close>
  "getBatch c now s =
     (case batchMap s c of
        Some b \<Rightarrow> (b, s)
      | None \<Rightarrow>
          (length (store s),
           s\<lparr>store := store s @ [\<lparr>messages = [], timer = None, lastMessageTime = now\<rparr>],
             batchMap := (batchMap s)(c \<mapsto> length (store s))\<rparr>))"

definition pushMessage :: "nat \<Rightarrow> request \<Rightarrow> nat \<Rightarrow> engine \<Rightarrow> engine" where
  \<comment> \<open>\<open>batch.messages.push(...)\<close> and \<open>batch.lastMessageTime = Date.now()\<close>\<close>
  "pushMessage b request now s =
     s\<lparr>store := (store s)
           [b := (store s ! b)
              \<lparr>messages := messages (store s ! b) @
                   [queuedItem request (length (messages (store s ! b)))],
               lastMessageTime := now\<rparr>]\<rparr>"

definition queueMessageForModeration :: "config \<Rightarrow> nat \<Rightarrow> request \<Rightarrow> engine \<Rightarrow> engine" where
  "queueMessageForModeration cfg now request s =
     (let c = chatOf request;
          me = length (promises s);
          (b, s1) = getBatch c now (s\<lparr>promises := promises s @ [Pending]\<rparr>);
          s2 = pushMessage b request now s1;
          messageIndex = length (messages (store s2 ! b)) - 1
      in if length (messages (store s2 ! b)) = 1
         then
           (let s3 = clearTimeout (timer (store s2 ! b)) s2
            in s3\<lparr>timers := timers s3 @
                      [Some \<lparr>deadline = now + batchTimeout cfg, timerChat = c, timerBatch = b,
                              owner = me\<rparr>],
                    store := (store s3)[b := (store s3 ! b)\<lparr>timer := Some (length (timers s3))\<rparr>]\<rparr>)
         else if maxBatchSize cfg \<le> int (length (messages (store s2 ! b)))
         then
           (let s3 = (case timer (store s2 ! b) of
                        None \<Rightarrow> s2
                      | Some h \<Rightarrow>
                          (clearTimeout (Some h) s2)
                            \<lparr>store := (store s2)[b := (store s2 ! b)\<lparr>timer := None\<rparr>]\<rparr>)
            in s3\<lparr>batchMap := (batchMap s3)(c := None),
                  inflight := inflight s3 @
                    [\<lparr>chat = c, messagesToProcess = messages (store s3 ! b), caller = me,
                      callerIndex = messageIndex, byTimer = False\<rparr>]\<rparr>)
         else s2)"

definition timerCallback :: "pending_timer \<Rightarrow> engine \<Rightarrow> engine" where
  \<comment> \<open>the callback given to \<open>setTimeout\<close>, up to its \<open>await\<close>\<close>
  "timerCallback t s =
     s\<lparr>batchMap := (batchMap s)(timerChat t := None),
       inflight := inflight s @
         [\<lparr>chat = timerChat t, messagesToProcess = messages (store s ! timerBatch t),
           caller = owner t, callerIndex = 0, byTimer = True\<rparr>]\<rparr>"

definition fire :: "nat \<Rightarrow> nat \<Rightarrow> engine \<Rightarrow> engine" where
  \<comment> \<open>the runtime at the time \<open>now\<close>: the timer \<open>h\<close>, if it is pending and due, leaves
      the pending timers and its callback runs\<close>
  "fire now h s =
     (if h < length (timers s)
      then (case timers s ! h of
              None \<Rightarrow> s
            | Some t \<Rightarrow>
                if deadline t \<le> now
                then timerCallback t (s\<lparr>timers := (timers s)[h := None]\<rparr>)
                else s)
      else s)"

definition deliver :: "runtime \<Rightarrow> classifier \<Rightarrow> flight \<Rightarrow> engine \<Rightarrow> engine" where
  \<comment> \<open>the continuation after the reply: the loop of the timer callback calls the one
      \<open>handleResult\<close> it closes over once per message; the size branch calls its own once\<close>
  "deliver rt cl f s =
     (let rs = moderateMessageBatch rt cl (messagesToProcess f)
      in if byTimer f
         then (handleResult (caller f) (callerIndex f) rs ^^ length (messagesToProcess f)) s
         else handleResult (caller f) (callerIndex f) rs s)"

definition resume :: "runtime \<Rightarrow> classifier \<Rightarrow> nat \<Rightarrow> engine \<Rightarrow> engine" where
  "resume rt cl k s =
     (if k < length (inflight s)
      then deliver rt cl (inflight s ! k)
             (s\<lparr>inflight := take k (inflight s) @ drop (Suc k) (inflight s)\<rparr>)
      else s)"

datatype event = Submit nat request | Timer nat nat | Reply nat

fun step :: "config \<Rightarrow> runtime \<Rightarrow> classifier \<Rightarrow> engine \<Rightarrow> event \<Rightarrow> engine" where
  "step cfg rt cl s (Submit now request) = queueMessageForModeration cfg now request s"
| "step cfg rt cl s (Timer now h) = fire now h s"
| "step cfg rt cl s (Reply k) = resume rt cl k s"

definition run :: "config \<Rightarrow> runtime \<Rightarrow> classifier \<Rightarrow> engine \<Rightarrow> event list \<Rightarrow> engine" where
  "run cfg rt cl s es = foldl (step cfg rt cl) s es"

definition coherent :: "engine \<Rightarrow> bool" where
  \<comment> \<open>the shape of every state the engine reaches: an open batch is an object of the
      store, holds a message and the handle of a pending timer of its own; a pending timer
      closes over the open batch of its conversation\<close>
  "coherent s =
     ((\<forall>c b. batchMap s c = Some b \<longrightarrow>
          b < length (store s) \<and> messages (store s ! b) \<noteq> [] \<and>
          (\<exists>h t. timer (store s ! b) = Some h \<and> h < length (timers s) \<and>
                 timers s ! h = Some t \<and> timerChat t = c \<and> timerBatch t = b)) \<and>
      (\<forall>h t. h < length (timers s) \<longrightarrow> timers s ! h = Some t \<longrightarrow>
          batchMap s (timerChat t) = Some (timerBatch t) \<and>
          timer (store s ! timerBatch t) = Some h))"

section \<open>Notions used in the statements\<close>




definition positioned :: "request list \<Rightarrow> request list" where
  \<comment> \<open>the items of a batch that received the requests \<open>rs\<close> in this order\<close>
  "positioned rs = map (\<lambda>(i, q). queuedItem q i) (enumerate 0 rs)"

definition arrivals :: "int \<Rightarrow> (nat \<times> request) list \<Rightarrow> request list" where
  \<comment> \<open>of timed submissions, the requests that belong to conversation \<open>c\<close>\<close>
  "arrivals c later = map snd (filter (\<lambda>(t, q). chatOf q = c) later)"

definition forgotten :: "nat \<Rightarrow> engine \<Rightarrow> bool" where
  \<comment> \<open>no pending timer and no call in flight holds the \<open>handleResult\<close> of caller \<open>p\<close>\<close>
  "forgotten p s =
     (p < length (promises s) \<and>
      (\<forall>h t. h < length (timers s) \<longrightarrow> timers s ! h = Some t \<longrightarrow> owner t \<noteq> p) \<and>
      (\<forall>f \<in> set (inflight s). caller f \<noteq> p))"

section \<open>Concrete inputs\<close>

text \<open>
  A runtime for the evaluations below. Its \<open>JSON.parse\<close> is given on the one fragment
  that is parsed there, \<^verbatim>\<open>{"isSpam":true,"confidence":1}\<close>, and throws elsewhere; its
  number conversion of strings, arrays and objects is never consulted there.
\<close>

definition example_json :: utf16 where
  "example_json = [123, 34, 105, 115, 83, 112, 97, 109, 34, 58, 116, 114, 117, 101, 44, 34,
     99, 111, 110, 102, 105, 100, 101, 110, 99, 101, 34, 58, 49, 125]"

definition example_runtime :: runtime where
  "example_runtime =
     \<lparr>json_parse = (\<lambda>s. if s = example_json
                        then Some [(ascii ''isSpam'', Bool True), (ascii ''confidence'', Num (Fin 1))]
                        else None),
      to_number = (\<lambda>v. NaN)\<rparr>"

definition eto_spam :: utf16 where
  \<comment> \<open>the reply text U+044D U+0442 U+043E, space, U+0441 U+043F U+0430 U+043C\<close>
  "eto_spam = [1101, 1090, 1086, 32, 1089, 1087, 1072, 1084]"

definition req :: "string \<Rightarrow> int option \<Rightarrow> int \<Rightarrow> request" where
  "req t i c =
     \<lparr>messageText = ascii t, userName = None, userBio = None, hasAvatar = None,
      suspiciousProfile = None, suspicionReason = None, messageId = i, chatId = Some c\<rparr>"

definition m1 :: request where
  "m1 = req ''hello'' (Some 101) 9"

definition m2 :: request where
  "m2 = req ''buy followers now'' (Some 102) 9"






definition cl_down :: classifier where
  \<comment> \<open>every call fails in transport\<close>
  "cl_down call = TransportError"


definition m3 :: request where
  "m3 = req ''hi'' (Some 103) 9"


definition cfg5 :: config where
  \<comment> \<open>the configuration \<open>ModerationBot\<close> constructs the service with\<close>
  "cfg5 = \<lparr>batchTimeout = 3000, maxBatchSize = 5\<rparr>"

definition cfg1 :: config where
  "cfg1 = \<lparr>batchTimeout = 3000, maxBatchSize = 1\<rparr>"

definition three_callers :: "runtime \<Rightarrow> engine" where
  \<comment> \<open>three submissions to conversation 9 within 100 ms, the timer (of handle 0), the
      failed call\<close>
  "three_callers rt =
     run cfg5 rt cl_down init
       [Submit 0 m1, Submit 30 m2, Submit 60 m3, Timer 3000 0, Reply 0]"

definition one_open :: engine where
  "one_open = queueMessageForModeration cfg5 0 m1 init"

definition first_flight :: flight where
  "first_flight = \<lparr>chat = 9, messagesToProcess = [m1], caller = 0, callerIndex = 0, byTimer = True\<rparr>"

section \<open>Text-heuristic extractor: flag and known pattern\<close>

lemma keywordPath_flag:
  "isSpam (keywordPath txt) = Bool True \<Longrightarrow> matchesKnownPattern (keywordPath txt) = Bool True"
  by (simp add: keywordPath_def Let_def)

lemma jsonPath_eto_spam: "jsonPath rt eto_spam = None"
  by (simp add: jsonPath_def re_exec_def jsonMatch_re_def eto_spam_def unit_eq_def)

lemma extract_eto_spam: "isSpam (extractModerationFromText rt eto_spam) = Bool True"
proof -
  have "spamFlag eto_spam = True" by code_simp
  then show ?thesis
    by (simp add: extractModerationFromText_def jsonPath_eto_spam keywordPath_def)
qed

text \<open>
  C9, as it holds: on the keyword path, that is when the text has no embedded JSON object
  that parses and carries \<open>isSpam\<close> and \<open>confidence\<close>, a flagged result always has
  \<open>matchesKnownPattern\<close> true.
\<close>

theorem keyword_path_flag_implies_pattern:
  assumes "jsonPath rt txt = None"
    and "isSpam (extractModerationFromText rt txt) = Bool True"
  shows "matchesKnownPattern (extractModerationFromText rt txt) = Bool True"
  using assms by (simp add: extractModerationFromText_def keywordPath_flag)

theorem keyword_path_flag_implies_pattern_witness:
  "jsonPath example_runtime eto_spam = None \<and>
   isSpam (extractModerationFromText example_runtime eto_spam) = Bool True \<and>
   matchesKnownPattern (extractModerationFromText example_runtime eto_spam) = Bool True"
  using keyword_path_flag_implies_pattern [OF jsonPath_eto_spam extract_eto_spam]
    jsonPath_eto_spam extract_eto_spam
  by simp

text \<open>
  C9 as stated fails on the embedded-JSON path: the reply text
  \<^verbatim>\<open>{"isSpam":true,"confidence":1}\<close> is flagged, and \<open>matchesKnownPattern\<close> is the
  coercion of the missing property, false.
\<close>

theorem embedded_json_flag_without_pattern:
  "isSpam (extractModerationFromText example_runtime example_json) = Bool True \<and>
   matchesKnownPattern (extractModerationFromText example_runtime example_json) = Bool False"
  by code_simp

section \<open>Classifier gateway: length and content of the batch result\<close>


















section \<open>Classifier gateway: confidence\<close>











section \<open>Batching coordinator: steps and reachable states\<close>


lemma coherent_open:
  assumes "coherent s" and "batchMap s c = Some b"
  obtains h t where "b < length (store s)" and "messages (store s ! b) \<noteq> []"
    and "timer (store s ! b) = Some h" and "h < length (timers s)"
    and "timers s ! h = Some t" and "timerChat t = c" and "timerBatch t = b"
  using assms unfolding coherent_def by blast

lemma coherent_pending:
  assumes "coherent s" and "h < length (timers s)" and "timers s ! h = Some t"
  shows "batchMap s (timerChat t) = Some (timerBatch t)"
    and "timer (store s ! timerBatch t) = Some h"
  using assms unfolding coherent_def by blast+

lemma coherent_distinct:
  assumes "coherent s" and "batchMap s c = Some b" and "batchMap s c' = Some b"
  shows "c' = c"
proof -
  from coherent_open [OF assms(1,2)] obtain h t where
    1: "timer (store s ! b) = Some h" "timers s ! h = Some t" "timerChat t = c" by metis
  from coherent_open [OF assms(1,3)] obtain h' t' where
    2: "timer (store s ! b) = Some h'" "timers s ! h' = Some t'" "timerChat t' = c'" by metis
  from 1 2 show ?thesis by simp
qed

lemma queue_first:
  assumes "batchMap s c = None" and "chatOf r = c"
  shows "queueMessageForModeration cfg now r s =
         s\<lparr>promises := promises s @ [Pending],
           store := store s @
             [\<lparr>messages = [queuedItem r 0], timer = Some (length (timers s)),
               lastMessageTime = now\<rparr>],
           batchMap := (batchMap s)(c \<mapsto> length (store s)),
           timers := timers s @
             [Some \<lparr>deadline = now + batchTimeout cfg, timerChat = c,
                     timerBatch = length (store s), owner = length (promises s)\<rparr>]\<rparr>"
  using assms
  by (simp add: queueMessageForModeration_def Let_def getBatch_def pushMessage_def
      clearTimeout_def)

lemma queue_append:
  assumes "batchMap s c = Some b" and "chatOf r = c" and "b < length (store s)"
    and "messages (store s ! b) \<noteq> []"
    and "int (Suc (length (messages (store s ! b)))) < maxBatchSize cfg"
  shows "queueMessageForModeration cfg now r s =
         s\<lparr>promises := promises s @ [Pending],
           store := (store s)
             [b := (store s ! b)
                \<lparr>messages := messages (store s ! b) @
                     [queuedItem r (length (messages (store s ! b)))],
                 lastMessageTime := now\<rparr>]\<rparr>"
  using assms
  by (simp add: queueMessageForModeration_def Let_def getBatch_def pushMessage_def)

lemma queue_flush:
  assumes "batchMap s c = Some b" and "chatOf r = c" and "b < length (store s)"
    and "messages (store s ! b) \<noteq> []" and "timer (store s ! b) = Some h"
    and "maxBatchSize cfg \<le> int (Suc (length (messages (store s ! b))))"
  shows "queueMessageForModeration cfg now r s =
         s\<lparr>promises := promises s @ [Pending],
           store := (store s)
             [b := (store s ! b)
                \<lparr>messages := messages (store s ! b) @
                     [queuedItem r (length (messages (store s ! b)))],
                 lastMessageTime := now, timer := None\<rparr>],
           timers := (timers s)[h := None],
           batchMap := (batchMap s)(c := None),
           inflight := inflight s @
             [\<lparr>chat = c,
               messagesToProcess = messages (store s ! b) @
                 [queuedItem r (length (messages (store s ! b)))],
               caller = length (promises s), callerIndex = length (messages (store s ! b)),
               byTimer = False\<rparr>]\<rparr>"
  using assms
  by (simp add: queueMessageForModeration_def Let_def getBatch_def pushMessage_def
      clearTimeout_def)

lemma coherentI:
  assumes "\<And>c b. batchMap s c = Some b \<Longrightarrow>
             b < length (store s) \<and> messages (store s ! b) \<noteq> [] \<and>
             (\<exists>h t. timer (store s ! b) = Some h \<and> h < length (timers s) \<and>
                    timers s ! h = Some t \<and> timerChat t = c \<and> timerBatch t = b)"
    and "\<And>h t. h < length (timers s) \<Longrightarrow> timers s ! h = Some t \<Longrightarrow>
             batchMap s (timerChat t) = Some (timerBatch t) \<and>
             timer (store s ! timerBatch t) = Some h"
  shows "coherent s"
  using assms unfolding coherent_def by blast

lemma coherent_queue_first:
  assumes w: "coherent s" and n: "batchMap s c = None" and c: "chatOf r = c"
  shows "coherent (queueMessageForModeration cfg now r s)"
proof -
  define s' where "s' = queueMessageForModeration cfg now r s"
  have st: "store s' = store s @
      [\<lparr>messages = [queuedItem r 0], timer = Some (length (timers s)), lastMessageTime = now\<rparr>]"
    and bm: "batchMap s' = (batchMap s)(c \<mapsto> length (store s))"
    and tm: "timers s' = timers s @
      [Some \<lparr>deadline = now + batchTimeout cfg, timerChat = c,
              timerBatch = length (store s), owner = length (promises s)\<rparr>]"
    unfolding s'_def queue_first [OF n c] by simp_all
  have old_t: "\<And>h t. h < length (timers s) \<Longrightarrow> timers s ! h = Some t \<Longrightarrow>
      timerChat t \<noteq> c \<and> timerBatch t < length (store s) \<and>
      batchMap s (timerChat t) = Some (timerBatch t) \<and>
      timer (store s ! timerBatch t) = Some h"
  proof -
    fix h t assume h: "h < length (timers s)" "timers s ! h = Some t"
    note p = coherent_pending [OF w h]
    from p(1) n have "timerChat t \<noteq> c" by auto
    moreover from coherent_open [OF w p(1)] have "timerBatch t < length (store s)" by metis
    ultimately show "timerChat t \<noteq> c \<and> timerBatch t < length (store s) \<and>
      batchMap s (timerChat t) = Some (timerBatch t) \<and>
      timer (store s ! timerBatch t) = Some h" using p by simp
  qed
  have "coherent s'"
  proof (rule coherentI)
    fix c' b assume m: "batchMap s' c' = Some b"
    show "b < length (store s') \<and> messages (store s' ! b) \<noteq> [] \<and>
          (\<exists>h t. timer (store s' ! b) = Some h \<and> h < length (timers s') \<and>
                 timers s' ! h = Some t \<and> timerChat t = c' \<and> timerBatch t = b)"
    proof (cases "c' = c")
      case True
      with m show ?thesis by (simp add: st bm tm nth_append)
    next
      case False
      with m have ob: "batchMap s c' = Some b" by (simp add: bm)
      from coherent_open [OF w ob] obtain h t where
        "b < length (store s)" "messages (store s ! b) \<noteq> []"
        "timer (store s ! b) = Some h" "h < length (timers s)"
        "timers s ! h = Some t" "timerChat t = c'" "timerBatch t = b" by metis
      then show ?thesis by (auto simp: st tm nth_append)
    qed
  next
    fix h t assume h: "h < length (timers s')" "timers s' ! h = Some t"
    show "batchMap s' (timerChat t) = Some (timerBatch t) \<and>
          timer (store s' ! timerBatch t) = Some h"
    proof (cases "h < length (timers s)")
      case True
      with h have "timers s ! h = Some t" by (simp add: tm nth_append)
      from old_t [OF True this] show ?thesis by (simp add: st bm nth_append)
    next
      case False
      with h have "h = length (timers s)" by (simp add: tm)
      with h show ?thesis by (auto simp: st bm tm nth_append)
    qed
  qed
  then show ?thesis by (simp add: s'_def)
qed

lemma coherent_cong:
  "store s' = store s \<Longrightarrow> timers s' = timers s \<Longrightarrow> batchMap s' = batchMap s \<Longrightarrow> coherent s' = coherent s"
  by (simp add: coherent_def)

lemma coherent_touch:
  assumes w: "coherent s" and m: "batchMap s c = Some b"
    and st: "store s' = (store s)[b := B]" and ne: "messages B \<noteq> []"
    and ti: "timer B = timer (store s ! b)"
    and tm: "timers s' = timers s" and bm: "batchMap s' = batchMap s"
  shows "coherent s'"
proof (rule coherentI)
  fix c' b' assume "batchMap s' c' = Some b'"
  then have ob: "batchMap s c' = Some b'" by (simp add: bm)
  from coherent_open [OF w ob] obtain h t where
    "b' < length (store s)" "messages (store s ! b') \<noteq> []"
    "timer (store s ! b') = Some h" "h < length (timers s)"
    "timers s ! h = Some t" "timerChat t = c'" "timerBatch t = b'" by metis
  moreover from coherent_open [OF w m] have "b < length (store s)" by metis
  ultimately show "b' < length (store s') \<and> messages (store s' ! b') \<noteq> [] \<and>
        (\<exists>h t. timer (store s' ! b') = Some h \<and> h < length (timers s') \<and>
               timers s' ! h = Some t \<and> timerChat t = c' \<and> timerBatch t = b')"
    using ne ti by (cases "b' = b") (auto simp: st tm)
next
  fix h t assume "h < length (timers s')" "timers s' ! h = Some t"
  then have h: "h < length (timers s)" "timers s ! h = Some t" by (simp_all add: tm)
  note p = coherent_pending [OF w h]
  from coherent_open [OF w p(1)] have "timerBatch t < length (store s)" by metis
  moreover from coherent_open [OF w m] have "b < length (store s)" by metis
  ultimately show "batchMap s' (timerChat t) = Some (timerBatch t) \<and>
        timer (store s' ! timerBatch t) = Some h"
    using p ti by (cases "timerBatch t = b") (auto simp: st bm)
qed

lemma coherent_close:
  assumes w: "coherent s" and h: "h < length (timers s)" "timers s ! h = Some t"
    and st: "store s' = (store s)[timerBatch t := X]"
    and tm: "timers s' = (timers s)[h := None]"
    and bm: "batchMap s' = (batchMap s)(timerChat t := None)"
  shows "coherent s'"
proof (rule coherentI)
  note p = coherent_pending [OF w h]
  fix c' b' assume m: "batchMap s' c' = Some b'"
  then have c': "c' \<noteq> timerChat t" and ob: "batchMap s c' = Some b'"
    by (auto simp: bm split: if_splits)
  from coherent_open [OF w ob] obtain h' t' where o:
    "b' < length (store s)" "messages (store s ! b') \<noteq> []"
    "timer (store s ! b') = Some h'" "h' < length (timers s)"
    "timers s ! h' = Some t'" "timerChat t' = c'" "timerBatch t' = b'" by metis
  have "b' \<noteq> timerBatch t" using coherent_distinct [OF w p(1), of c'] ob c' by auto
  moreover have "h' \<noteq> h" using o(5,6) h(2) c' by auto
  ultimately show "b' < length (store s') \<and> messages (store s' ! b') \<noteq> [] \<and>
        (\<exists>h t. timer (store s' ! b') = Some h \<and> h < length (timers s') \<and>
               timers s' ! h = Some t \<and> timerChat t = c' \<and> timerBatch t = b')"
    using o by (auto simp: st tm)
next
  note p = coherent_pending [OF w h]
  fix h' t' assume "h' < length (timers s')" "timers s' ! h' = Some t'"
  with h(1) have h': "h' \<noteq> h" "h' < length (timers s)" "timers s ! h' = Some t'"
    by (auto simp: tm nth_list_update split: if_splits)
  note p' = coherent_pending [OF w h'(2,3)]
  have b: "timerBatch t' \<noteq> timerBatch t" using p(2) p'(2) h'(1) by auto
  then have "timerChat t' \<noteq> timerChat t" using p(1) p'(1) by auto
  with b p' show "batchMap s' (timerChat t') = Some (timerBatch t') \<and>
        timer (store s' ! timerBatch t') = Some h'"
    by (simp add: st bm)
qed

lemma coherent_queue:
  assumes w: "coherent s"
  shows "coherent (queueMessageForModeration cfg now r s)"
proof (cases "batchMap s (chatOf r)")
  case None
  from coherent_queue_first [OF w None refl] show ?thesis .
next
  case (Some b)
  from coherent_open [OF w Some] obtain h t where o:
    "b < length (store s)" "messages (store s ! b) \<noteq> []"
    "timer (store s ! b) = Some h" "h < length (timers s)"
    "timers s ! h = Some t" "timerChat t = chatOf r" "timerBatch t = b" by metis
  show ?thesis
  proof (cases "int (Suc (length (messages (store s ! b)))) < maxBatchSize cfg")
    case True
    show ?thesis
      unfolding queue_append [OF Some refl o(1,2) True]
      by (rule coherent_touch [OF w Some, where B = "(store s ! b)
                \<lparr>messages := messages (store s ! b) @
                     [queuedItem r (length (messages (store s ! b)))],
                 lastMessageTime := now\<rparr>"]) (simp_all add: o)
  next
    case False
    then have full: "maxBatchSize cfg \<le> int (Suc (length (messages (store s ! b))))" by simp
    show ?thesis
      unfolding queue_flush [OF Some refl o(1,2,3) full]
      by (rule coherent_close [OF w o(4,5), where X = "(store s ! b)
                \<lparr>messages := messages (store s ! b) @
                     [queuedItem r (length (messages (store s ! b)))],
                 lastMessageTime := now, timer := None\<rparr>"]) (simp_all add: o)
  qed
qed

lemma coherent_fire: "coherent s \<Longrightarrow> coherent (fire now h s)"
proof -
  assume w: "coherent s"
  show ?thesis
  proof (cases "h < length (timers s) \<and> (\<exists>t. timers s ! h = Some t \<and> deadline t \<le> now)")
    case False
    then show ?thesis using w by (auto simp: fire_def split: option.splits)
  next
    case True
    then obtain t where t: "h < length (timers s)" "timers s ! h = Some t" "deadline t \<le> now"
      by blast
    have "fire now h s = timerCallback t (s\<lparr>timers := (timers s)[h := None]\<rparr>)"
      using t by (simp add: fire_def)
    moreover have "coherent (timerCallback t (s\<lparr>timers := (timers s)[h := None]\<rparr>))"
      by (rule coherent_close [OF w t(1,2), where X = "store s ! timerBatch t"])
         (simp_all add: timerCallback_def)
    ultimately show ?thesis by simp
  qed
qed

lemma settle_frame:
  "store (settle p v s) = store s \<and> batchMap (settle p v s) = batchMap s \<and>
   timers (settle p v s) = timers s \<and> inflight (settle p v s) = inflight s \<and>
   length (promises (settle p v s)) = length (promises s)"
  by (simp add: settle_def)

lemma settle_other: "q \<noteq> p \<Longrightarrow> promises (settle p v s) ! q = promises s ! q"
  by (simp add: settle_def)

lemma handleResult_frame:
  "store (handleResult p i rs s) = store s \<and> batchMap (handleResult p i rs s) = batchMap s \<and>
   timers (handleResult p i rs s) = timers s \<and> inflight (handleResult p i rs s) = inflight s \<and>
   length (promises (handleResult p i rs s)) = length (promises s)"
  by (simp add: handleResult_def settle_frame)

lemma handleResult_other: "q \<noteq> p \<Longrightarrow> promises (handleResult p i rs s) ! q = promises s ! q"
  by (simp add: handleResult_def settle_other)

lemma handleResult_loop_frame:
  "store ((handleResult p i rs ^^ n) s) = store s \<and>
   batchMap ((handleResult p i rs ^^ n) s) = batchMap s \<and>
   timers ((handleResult p i rs ^^ n) s) = timers s \<and>
   inflight ((handleResult p i rs ^^ n) s) = inflight s \<and>
   length (promises ((handleResult p i rs ^^ n) s)) = length (promises s)"
  by (induction n) (simp_all add: handleResult_frame)

lemma handleResult_loop_other:
  "q \<noteq> p \<Longrightarrow> promises ((handleResult p i rs ^^ n) s) ! q = promises s ! q"
  by (induction n) (simp_all add: handleResult_other)

lemma deliver_frame:
  "store (deliver rt cl f s) = store s \<and> batchMap (deliver rt cl f s) = batchMap s \<and>
   timers (deliver rt cl f s) = timers s \<and> inflight (deliver rt cl f s) = inflight s \<and>
   length (promises (deliver rt cl f s)) = length (promises s)"
  by (simp add: deliver_def Let_def handleResult_frame handleResult_loop_frame)

lemma deliver_other: "q \<noteq> caller f \<Longrightarrow> promises (deliver rt cl f s) ! q = promises s ! q"
  by (simp add: deliver_def Let_def handleResult_other handleResult_loop_other)

lemma resume_frame:
  "store (resume rt cl k s) = store s \<and> batchMap (resume rt cl k s) = batchMap s \<and>
   timers (resume rt cl k s) = timers s"
  by (simp add: resume_def deliver_frame)

lemma resume_inflight:
  "inflight (resume rt cl k s) =
     (if k < length (inflight s) then take k (inflight s) @ drop (Suc k) (inflight s) else inflight s)"
  by (simp add: resume_def deliver_frame)

lemma coherent_resume: "coherent s \<Longrightarrow> coherent (resume rt cl k s)"
  using coherent_cong [of "resume rt cl k s" s] by (simp add: resume_frame)

lemma coherent_step: "coherent s \<Longrightarrow> coherent (step cfg rt cl s e)"
  by (cases e) (simp_all add: coherent_queue coherent_fire coherent_resume)

lemma run_snoc: "run cfg rt cl s (es @ [e]) = step cfg rt cl (run cfg rt cl s es) e"
  by (simp add: run_def)

lemma run_Cons: "run cfg rt cl s (e # es) = run cfg rt cl (step cfg rt cl s e) es"
  by (simp add: run_def)

lemma run_Nil: "run cfg rt cl s [] = s"
  by (simp add: run_def)

lemma coherent_run: "coherent s \<Longrightarrow> coherent (run cfg rt cl s es)"
  by (induction es arbitrary: s) (simp_all add: run_Nil run_Cons coherent_step)

lemma positioned_snoc: "positioned (rs @ [q]) = positioned rs @ [queuedItem q (length rs)]"
  by (simp add: positioned_def enumerate_append_eq)

lemma length_positioned: "length (positioned rs) = length rs"
  by (simp add: positioned_def)

lemma queue_other:
  assumes w: "coherent s" and d: "chatOf q \<noteq> c" and m: "batchMap s c = Some b"
    and t: "timer (store s ! b) = Some h"
  shows "batchMap (queueMessageForModeration cfg now q s) c = Some b \<and>
         store (queueMessageForModeration cfg now q s) ! b = store s ! b \<and>
         timers (queueMessageForModeration cfg now q s) ! h = timers s ! h \<and>
         length (timers s) \<le> length (timers (queueMessageForModeration cfg now q s)) \<and>
         length (store s) \<le> length (store (queueMessageForModeration cfg now q s))"
proof -
  from coherent_open [OF w m] t obtain T where o:
    "b < length (store s)" "h < length (timers s)" "timers s ! h = Some T" "timerChat T = c"
    by (metis option.inject)
  show ?thesis
  proof (cases "batchMap s (chatOf q)")
    case None
    show ?thesis
      unfolding queue_first [OF None refl] using d m o by (simp add: nth_append)
  next
    case (Some b')
    from coherent_open [OF w Some] obtain h' t' where o':
      "b' < length (store s)" "messages (store s ! b') \<noteq> []"
      "timer (store s ! b') = Some h'" "h' < length (timers s)"
      "timers s ! h' = Some t'" "timerChat t' = chatOf q" "timerBatch t' = b'" by metis
    have nb: "b' \<noteq> b" using coherent_distinct [OF w m, of "chatOf q"] Some d by auto
    have nh: "h' \<noteq> h" using o o' d by auto
    show ?thesis
    proof (cases "int (Suc (length (messages (store s ! b')))) < maxBatchSize cfg")
      case True
      show ?thesis
        unfolding queue_append [OF Some refl o'(1,2) True] using d m nb by simp
    next
      case False
      then have full: "maxBatchSize cfg \<le> int (Suc (length (messages (store s ! b'))))" by simp
      show ?thesis
        unfolding queue_flush [OF Some refl o'(1,2,3) full] using d m nb nh by simp
    qed
  qed
qed

lemma open_batch_after_arrivals:
  assumes w: "coherent s" and n: "batchMap s c = None" and c: "chatOf r = c"
    and "int (Suc (length (arrivals c later))) < maxBatchSize cfg"
  shows "coherent (run cfg rt cl s (Submit t0 r # map (\<lambda>(t, q). Submit t q) later)) \<and>
         batchMap (run cfg rt cl s (Submit t0 r # map (\<lambda>(t, q). Submit t q) later)) c =
           Some (length (store s)) \<and>
         length (store s) < length (store (run cfg rt cl s (Submit t0 r # map (\<lambda>(t, q). Submit t q) later))) \<and>
         messages (store (run cfg rt cl s (Submit t0 r # map (\<lambda>(t, q). Submit t q) later)) ! length (store s)) =
           positioned (r # arrivals c later) \<and>
         timer (store (run cfg rt cl s (Submit t0 r # map (\<lambda>(t, q). Submit t q) later)) ! length (store s)) =
           Some (length (timers s)) \<and>
         length (timers s) < length (timers (run cfg rt cl s (Submit t0 r # map (\<lambda>(t, q). Submit t q) later))) \<and>
         timers (run cfg rt cl s (Submit t0 r # map (\<lambda>(t, q). Submit t q) later)) ! length (timers s) =
           Some \<lparr>deadline = t0 + batchTimeout cfg, timerChat = c, timerBatch = length (store s),
                  owner = length (promises s)\<rparr>"
  using assms(4)
proof (induction later rule: rev_induct)
  case Nil
  show ?case
    using coherent_queue [OF w, of cfg t0 r]
    by (simp add: run_Cons run_Nil queue_first [OF n c] arrivals_def positioned_def nth_append)
next
  case (snoc x later)
  obtain t q where x: "x = (t, q)" by (cases x)
  let ?s = "run cfg rt cl s (Submit t0 r # map (\<lambda>(t, q). Submit t q) later)"
  from snoc.prems have "int (Suc (length (arrivals c later))) < maxBatchSize cfg"
    by (simp add: arrivals_def x split: if_splits)
  from snoc.IH [OF this] have ih:
    "coherent ?s" "batchMap ?s c = Some (length (store s))" "length (store s) < length (store ?s)"
    "messages (store ?s ! length (store s)) = positioned (r # arrivals c later)"
    "timer (store ?s ! length (store s)) = Some (length (timers s))"
    "length (timers s) < length (timers ?s)"
    "timers ?s ! length (timers s) =
       Some \<lparr>deadline = t0 + batchTimeout cfg, timerChat = c, timerBatch = length (store s),
              owner = length (promises s)\<rparr>"
    by simp_all
  have run: "run cfg rt cl s (Submit t0 r # map (\<lambda>(t, q). Submit t q) (later @ [x])) =
             queueMessageForModeration cfg t q ?s"
    using run_snoc [of cfg rt cl s "Submit t0 r # map (\<lambda>(t, q). Submit t q) later" "Submit t q"]
    by (simp add: x)
  have w': "coherent (queueMessageForModeration cfg t q ?s)" by (rule coherent_queue [OF ih(1)])
  show ?case
  proof (cases "chatOf q = c")
    case True
    have ne: "messages (store ?s ! length (store s)) \<noteq> []"
      by (simp add: ih(4) positioned_def enumerate_eq_zip)
    have len: "int (Suc (length (messages (store ?s ! length (store s))))) < maxBatchSize cfg"
      using snoc.prems True by (simp add: ih(4) length_positioned arrivals_def x)
    have arr: "arrivals c (later @ [x]) = arrivals c later @ [q]"
      using True by (simp add: arrivals_def x)
    show ?thesis
      unfolding run using w' positioned_snoc [of "r # arrivals c later" q]
      unfolding queue_append [OF ih(2) True ih(3) ne len]
      by (simp add: ih arr length_positioned)
  next
    case False
    have arr: "arrivals c (later @ [x]) = arrivals c later"
      using False by (simp add: arrivals_def x)
    from queue_other [OF ih(1) False ih(2) ih(5), of cfg t] ih w'
    show ?thesis unfolding run by (simp add: arr)
  qed
qed

lemma queue_inflight:
  "inflight (queueMessageForModeration cfg now r s) = inflight s \<or>
   (\<exists>f. inflight (queueMessageForModeration cfg now r s) = inflight s @ [f] \<and>
        chat f = chatOf r \<and> batchMap (queueMessageForModeration cfg now r s) (chatOf r) = None)"
proof (cases "batchMap s (chatOf r)")
  case None
  then show ?thesis by (simp add: queue_first [OF None refl])
next
  case (Some b)
  then show ?thesis
    by (simp add: queueMessageForModeration_def Let_def getBatch_def pushMessage_def
        clearTimeout_def split: option.splits)
qed

lemma fire_inflight:
  "inflight (fire now h s) = inflight s \<or>
   (\<exists>f. inflight (fire now h s) = inflight s @ [f] \<and> batchMap (fire now h s) (chat f) = None)"
  by (simp add: fire_def timerCallback_def split: option.splits)

lemma chatOf_m: "chatOf m1 = 9" "chatOf m2 = 9"
  by (simp_all add: chatOf_def m1_def m2_def req_def)

lemma one_open_eq:
  "one_open =
     \<lparr>store = [\<lparr>messages = [m1], timer = Some 0, lastMessageTime = 0\<rparr>],
      batchMap = (\<lambda>c. None)(9 \<mapsto> 0),
      timers = [Some \<lparr>deadline = 3000, timerChat = 9, timerBatch = 0, owner = 0\<rparr>],
      promises = [Pending], inflight = []\<rparr>"
  by (simp add: one_open_def queueMessageForModeration_def Let_def init_def cfg5_def m1_def req_def
      chatOf_def queuedItem_def or_index_def getBatch_def pushMessage_def clearTimeout_def)

lemma one_open_fired:
  "step cfg5 rt cl one_open (Timer 3000 0) =
     \<lparr>store = [\<lparr>messages = [m1], timer = Some 0, lastMessageTime = 0\<rparr>],
      batchMap = (\<lambda>c. None), timers = [None], promises = [Pending],
      inflight = [first_flight]\<rparr>"
  by (simp add: one_open_eq fire_def timerCallback_def first_flight_def)

section \<open>Batching coordinator: a flushed batch has left the map\<close>

text \<open>
  C4: the open batches are a map from the conversation to its batch, so a conversation
  has at most one. Whenever a step issues a classifier call for a flushed batch (a call
  is added to those in flight), the conversation has no open batch when the step ends,
  which is when the call is awaited; a request for that conversation that arrives
  while the call is in flight opens a batch of its own, a new object that holds that
  request alone and a timer of its own, and leaves the call in flight as it is.
\<close>

theorem flushed_batch_leaves_map_first:
  assumes "inflight (step cfg rt cl s e) = inflight s @ [f]"
  shows "batchMap (step cfg rt cl s e) (chat f) = None \<and>
         (\<forall>now r. chatOf r = chat f \<longrightarrow>
            (let s' = step cfg rt cl s e;
                 s'' = queueMessageForModeration cfg now r s'
             in batchMap s'' (chat f) = Some (length (store s')) \<and>
                store s'' ! length (store s') =
                  \<lparr>messages = [queuedItem r 0], timer = Some (length (timers s')),
                   lastMessageTime = now\<rparr> \<and>
                inflight s'' = inflight s @ [f]))"
proof -
  have gone: "batchMap (step cfg rt cl s e) (chat f) = None"
  proof (cases e)
    case (Submit now r)
    with assms queue_inflight [of cfg now r s] show ?thesis by auto
  next
    case (Timer now h)
    with assms fire_inflight [of now h s] show ?thesis by auto
  next
    case (Reply k)
    have "length (inflight (resume rt cl k s)) \<le> length (inflight s)"
      by (simp add: resume_inflight)
    with assms Reply show ?thesis by simp
  qed
  have "\<And>now r. chatOf r = chat f \<Longrightarrow>
      batchMap (queueMessageForModeration cfg now r (step cfg rt cl s e)) (chat f) =
        Some (length (store (step cfg rt cl s e))) \<and>
      store (queueMessageForModeration cfg now r (step cfg rt cl s e)) !
          length (store (step cfg rt cl s e)) =
        \<lparr>messages = [queuedItem r 0], timer = Some (length (timers (step cfg rt cl s e))),
         lastMessageTime = now\<rparr> \<and>
      inflight (queueMessageForModeration cfg now r (step cfg rt cl s e)) = inflight s @ [f]"
    using assms by (simp add: queue_first [OF gone])
  with gone show ?thesis unfolding Let_def by blast
qed

theorem flushed_batch_leaves_map_first_witness:
  "inflight (step cfg5 example_runtime cl_down one_open (Timer 3000 0)) =
     inflight one_open @ [first_flight] \<and>
   batchMap (step cfg5 example_runtime cl_down one_open (Timer 3000 0)) 9 = None \<and>
   batchMap (queueMessageForModeration cfg5 3100 m2
              (step cfg5 example_runtime cl_down one_open (Timer 3000 0))) 9 = Some 1 \<and>
   store (queueMessageForModeration cfg5 3100 m2
              (step cfg5 example_runtime cl_down one_open (Timer 3000 0))) ! 1 =
     \<lparr>messages = [queuedItem m2 0], timer = Some 1, lastMessageTime = 3100\<rparr>"
proof -
  have a: "inflight (step cfg5 example_runtime cl_down one_open (Timer 3000 0)) =
           inflight one_open @ [first_flight]"
    by (simp only: one_open_fired) (simp add: one_open_eq)
  have c: "chat first_flight = 9" by (simp add: first_flight_def)
  have l: "length (store (step cfg5 example_runtime cl_down one_open (Timer 3000 0))) = 1"
    "length (timers (step cfg5 example_runtime cl_down one_open (Timer 3000 0))) = 1"
    by (simp_all only: one_open_fired) simp_all
  from flushed_batch_leaves_map_first [OF a, unfolded Let_def c l] a show ?thesis
    using chatOf_m(2) by blast
qed

section \<open>Batching coordinator: the timer\<close>




section \<open>Batching coordinator: the size limit\<close>

text \<open>
  For a limit of two or more, the submission that makes the item count reach the limit
  flushes the batch at once: the conversation has no open batch, the timer of the batch
  is cleared and never fires, and the call for all the items is in flight on behalf of
  the last caller (\<open>size_flush_at_max\<close>).
\<close>

lemma same_chat_arrivals:
  "\<forall>(t, q) \<in> set later. chatOf q = c \<Longrightarrow> arrivals c later = map snd later"
  by (induction later) (auto simp: arrivals_def)

lemma quiet_while_filling:
  assumes "coherent s" and "batchMap s c = None" and "chatOf r = c"
    and "\<forall>(t, q) \<in> set later. chatOf q = c"
    and "int (Suc (length later)) < maxBatchSize cfg"
  shows "inflight (run cfg rt cl s (Submit t0 r # map (\<lambda>(t, q). Submit t q) later)) = inflight s \<and>
         promises (run cfg rt cl s (Submit t0 r # map (\<lambda>(t, q). Submit t q) later)) =
           promises s @ replicate (Suc (length later)) Pending"
  using assms(4,5)
proof (induction later rule: rev_induct)
  case Nil
  show ?case by (simp add: run_Cons run_Nil queue_first [OF assms(2,3)])
next
  case (snoc x later)
  obtain t q where x: "x = (t, q)" by (cases x)
  let ?s = "run cfg rt cl s (Submit t0 r # map (\<lambda>(t, q). Submit t q) later)"
  from snoc.prems have all: "\<forall>(t, q) \<in> set later. chatOf q = c" and q: "chatOf q = c"
    and len: "int (Suc (length later)) < maxBatchSize cfg"
    by (auto simp: x)
  from snoc.IH [OF all len] have ih: "inflight ?s = inflight s"
    "promises ?s = promises s @ replicate (Suc (length later)) Pending" by simp_all
  have "int (Suc (length (arrivals c later))) < maxBatchSize cfg"
    using len by (simp add: same_chat_arrivals [OF all])
  from open_batch_after_arrivals [OF assms(1,2,3) this, of rt cl t0]
  have b: "batchMap ?s c = Some (length (store s))" "length (store s) < length (store ?s)"
    "messages (store ?s ! length (store s)) = positioned (r # arrivals c later)"
    by simp_all
  have ne: "messages (store ?s ! length (store s)) \<noteq> []"
    by (simp add: b(3) positioned_def enumerate_eq_zip)
  have len': "int (Suc (length (messages (store ?s ! length (store s))))) < maxBatchSize cfg"
    using snoc.prems(2) by (simp add: b(3) length_positioned same_chat_arrivals [OF all])
  have run: "run cfg rt cl s (Submit t0 r # map (\<lambda>(t, q). Submit t q) (later @ [x])) =
             queueMessageForModeration cfg t q ?s"
    using run_snoc [of cfg rt cl s "Submit t0 r # map (\<lambda>(t, q). Submit t q) later" "Submit t q"]
    by (simp add: x)
  show ?case
    unfolding run queue_append [OF b(1) q b(2) ne len']
    by (simp add: ih replicate_append_same)
qed

lemma size_flush_at_max:
  assumes "coherent s" and "batchMap s c = None" and "chatOf r = c"
    and "\<forall>(t, q) \<in> set later. chatOf q = c" and "chatOf q' = c"
    and "maxBatchSize cfg = int (length later) + 2"
  shows "let s' = run cfg rt cl s
                    (Submit t0 r # map (\<lambda>(t, q). Submit t q) later @ [Submit tn q'])
         in batchMap s' c = None \<and>
            timers s' ! length (timers s) = None \<and>
            inflight s' = inflight s @
              [\<lparr>chat = c, messagesToProcess = positioned (r # map snd later @ [q']),
                caller = Suc (length (promises s) + length later),
                callerIndex = Suc (length later), byTimer = False\<rparr>] \<and>
            (\<forall>now. step cfg rt cl s' (Timer now (length (timers s))) = s')"
proof -
  let ?s = "run cfg rt cl s (Submit t0 r # map (\<lambda>(t, q). Submit t q) later)"
  have len: "int (Suc (length later)) < maxBatchSize cfg" using assms(6) by simp
  from quiet_while_filling [OF assms(1,2,3,4) len, of rt cl t0]
  have q: "inflight ?s = inflight s"
    "promises ?s = promises s @ replicate (Suc (length later)) Pending" by simp_all
  have "int (Suc (length (arrivals c later))) < maxBatchSize cfg"
    using len by (simp add: same_chat_arrivals [OF assms(4)])
  from open_batch_after_arrivals [OF assms(1,2,3) this, of rt cl t0]
  have b: "batchMap ?s c = Some (length (store s))" "length (store s) < length (store ?s)"
    "messages (store ?s ! length (store s)) = positioned (r # map snd later)"
    "timer (store ?s ! length (store s)) = Some (length (timers s))"
    "length (timers s) < length (timers ?s)"
    by (simp_all add: same_chat_arrivals [OF assms(4)])
  have ne: "messages (store ?s ! length (store s)) \<noteq> []"
    by (simp add: b(3) positioned_def enumerate_eq_zip)
  have full: "maxBatchSize cfg \<le> int (Suc (length (messages (store ?s ! length (store s)))))"
    using assms(6) by (simp add: b(3) length_positioned)
  have run: "run cfg rt cl s (Submit t0 r # map (\<lambda>(t, q). Submit t q) later @ [Submit tn q']) =
             queueMessageForModeration cfg tn q' ?s"
    using run_snoc [of cfg rt cl s "Submit t0 r # map (\<lambda>(t, q). Submit t q) later" "Submit tn q'"]
    by simp
  show ?thesis
    unfolding Let_def run queue_flush [OF b(1) assms(5) b(2) ne b(4) full]
    using positioned_snoc [of "r # map snd later" q'] b(5)
    by (simp add: q b(3) length_positioned fire_def)
qed

text \<open>
  C5 fails when \<open>maxBatchSize\<close> is 1: the first request makes the item count reach
  the limit, and the engine only opens the batch and arms the timer; no call is issued
  at that submission. (For a limit of two or more, \<open>size_flush_at_max\<close> above is the
  behaviour C5 describes.)
\<close>

theorem max_size_one_waits_for_timer:
  "maxBatchSize cfg1 = int (length [m1]) \<and>
   queueMessageForModeration cfg1 0 m1 init =
     \<lparr>store = [\<lparr>messages = [m1], timer = Some 0, lastMessageTime = 0\<rparr>],
      batchMap = (\<lambda>c. None)(9 \<mapsto> 0),
      timers = [Some \<lparr>deadline = 3000, timerChat = 9, timerBatch = 0, owner = 0\<rparr>],
      promises = [Pending], inflight = []\<rparr>"
  by (simp add: queueMessageForModeration_def Let_def init_def cfg1_def m1_def req_def
      chatOf_def queuedItem_def or_index_def getBatch_def pushMessage_def clearTimeout_def)

section \<open>Batching coordinator: a batch of one\<close>




section \<open>Batching coordinator: the id 0\<close>



section \<open>Batching coordinator: callers that are never answered\<close>

lemma nth_update_any:
  "xs[i := x] ! j = (if i = j \<and> i < length xs then x else xs ! j)"
  by (cases "i < length xs") (simp_all add: nth_list_update list_update_beyond)

lemma forgotten_queue:
  assumes "forgotten p s"
  shows "forgotten p (queueMessageForModeration cfg now r s) \<and>
         promises (queueMessageForModeration cfg now r s) ! p = promises s ! p"
proof -
  from assms have p: "p < length (promises s)"
    and t: "\<And>h t. h < length (timers s) \<Longrightarrow> timers s ! h = Some t \<Longrightarrow> owner t \<noteq> p"
    and f: "\<And>f. f \<in> set (inflight s) \<Longrightarrow> caller f \<noteq> p"
    by (auto simp: forgotten_def)
  show ?thesis
    using p t f
    by (auto simp: forgotten_def queueMessageForModeration_def Let_def nth_append
        getBatch_def pushMessage_def clearTimeout_def nth_update_any
        split: option.splits if_splits)
qed

lemma forgotten_fire:
  assumes "forgotten p s"
  shows "forgotten p (fire now h s) \<and> promises (fire now h s) ! p = promises s ! p"
  using assms
  by (auto simp: forgotten_def fire_def timerCallback_def nth_update_any
      split: option.splits if_splits)

lemma forgotten_resume:
  assumes "forgotten p s"
  shows "forgotten p (resume rt cl k s) \<and> promises (resume rt cl k s) ! p = promises s ! p"
proof (cases "k < length (inflight s)")
  case False
  with assms show ?thesis by (simp add: resume_def)
next
  case True
  let ?s = "s\<lparr>inflight := take k (inflight s) @ drop (Suc k) (inflight s)\<rparr>"
  from assms True have c: "caller (inflight s ! k) \<noteq> p"
    by (auto simp: forgotten_def)
  have sub: "set (take k (inflight s) @ drop (Suc k) (inflight s)) \<subseteq> set (inflight s)"
    by (auto dest: in_set_takeD in_set_dropD)
  have "forgotten p (deliver rt cl (inflight s ! k) ?s)"
    using assms sub by (auto simp: forgotten_def deliver_frame)
  moreover have "promises (deliver rt cl (inflight s ! k) ?s) ! p = promises s ! p"
    using c by (simp add: deliver_other)
  ultimately show ?thesis using True by (simp add: resume_def)
qed

lemma forgotten_step:
  "forgotten p s \<Longrightarrow>
   forgotten p (step cfg rt cl s e) \<and> promises (step cfg rt cl s e) ! p = promises s ! p"
  by (cases e) (simp_all add: forgotten_queue forgotten_fire forgotten_resume)

lemma forgotten_run:
  "forgotten p s \<Longrightarrow>
   forgotten p (run cfg rt cl s es) \<and> promises (run cfg rt cl s es) ! p = promises s ! p"
proof (induction es arbitrary: s)
  case Nil
  then show ?case by (simp add: run_Nil)
next
  case (Cons e es)
  from forgotten_step [OF Cons.prems, of cfg rt cl e]
  have 1: "forgotten p (step cfg rt cl s e)"
    and 2: "promises (step cfg rt cl s e) ! p = promises s ! p" by simp_all
  from Cons.IH [OF 1] 2 show ?case by (simp add: run_Cons)
qed

lemma three_then_timer:
  "run cfg5 rt cl_down init [Submit 0 m1, Submit 30 m2, Submit 60 m3, Timer 3000 0, Reply 0] =
     \<lparr>store = [\<lparr>messages = [m1, m2, m3], timer = Some 0, lastMessageTime = 60\<rparr>],
      batchMap = (\<lambda>c. None),
      timers = [None],
      promises = [Resolved (errorResponse reason_batch_error (Some 101)), Pending, Pending],
      inflight = []\<rparr>"
  apply (simp add: run_def)
  apply (simp add: queueMessageForModeration_def Let_def init_def cfg5_def m1_def m2_def m3_def
      req_def chatOf_def queuedItem_def or_index_def fire_def timerCallback_def
      getBatch_def pushMessage_def clearTimeout_def)
  apply (simp add: resume_def deliver_def moderateMessageBatch_def cl_down_def defaultBatch_def
      enumerate_eq_zip handleResult_def settle_def or_index_def numeral_3_eq_3)
  done

text \<open>
  C1 fails on the scenario of the specification: three requests for conversation 9
  within 100 ms, a limit of five, a classifier whose call fails. When the timer has
  fired and the call has failed, the first caller holds the conservative default; the
  promises of the second and third caller are pending, no timer is pending and nothing
  is in flight, and they stay pending whatever happens afterwards.
\<close>

theorem later_callers_never_settled:
  "promises (three_callers rt) =
     [Resolved (errorResponse reason_batch_error (Some 101)), Pending, Pending] \<and>
   inflight (three_callers rt) = [] \<and>
   promises (run cfg rt' cl (three_callers rt) es) ! 1 = Pending \<and>
   promises (run cfg rt' cl (three_callers rt) es) ! 2 = Pending"
proof -
  have s: "three_callers rt =
     \<lparr>store = [\<lparr>messages = [m1, m2, m3], timer = Some 0, lastMessageTime = 60\<rparr>],
      batchMap = (\<lambda>c. None),
      timers = [None],
      promises = [Resolved (errorResponse reason_batch_error (Some 101)), Pending, Pending],
      inflight = []\<rparr>"
    unfolding three_callers_def by (rule three_then_timer)
  have "forgotten 1 (three_callers rt)" and "forgotten 2 (three_callers rt)"
    by (simp_all add: s forgotten_def)
  from forgotten_run [OF this(1), of cfg rt' cl es] forgotten_run [OF this(2), of cfg rt' cl es]
  show ?thesis
    by (simp add: s)
qed

end
